theory Spec2Isabelle
  imports Main "HOL-Library.AList"
begin

section \<open>Strings and substring search\<close>

text \<open>
  A JavaScript string is a sequence of code units; the analyzer only ever asks whether one
  string occurs inside another (\<^verbatim>\<open>String.prototype.includes\<close>), which compares code
  units one by one and is case-sensitive. \<open>js_includes s pat\<close> is \<^verbatim>\<open>s.includes(pat)\<close>.
  The search is defined for lists over any alphabet; the analyzer's strings are written
  with \<^typ>\<open>string\<close>, and every pattern it searches for is ASCII.
\<close>

fun starts_with :: "'a list \<Rightarrow> 'a list \<Rightarrow> bool" where
  "starts_with s [] = True"
| "starts_with [] (p # ps) = False"
| "starts_with (c # cs) (p # ps) = (c = p \<and> starts_with cs ps)"

fun js_includes :: "'a list \<Rightarrow> 'a list \<Rightarrow> bool" where
  "js_includes [] pat = (pat = [])"
| "js_includes (c # cs) pat = (starts_with (c # cs) pat \<or> js_includes cs pat)"

text \<open>The mathematical notion the claims speak about: \<open>pat\<close> occurs somewhere in \<open>s\<close>.\<close>

definition occurs_in :: "'a list \<Rightarrow> 'a list \<Rightarrow> bool" where
  "occurs_in pat s = (\<exists>before after. s = before @ pat @ after)"

section \<open>Data model\<close>

text \<open>A promise either rejects with an error message or resolves with a value.\<close>

datatype 'a outcome = Rejects string | Resolves 'a

record script_el =
  src :: string
  content :: string

record request =
  req_url :: string
  req_method :: string
  req_headers :: "(string \<times> string) list"
  req_postData :: "string option"

record network_entry =
  nr_url :: string
  nr_method :: string
  nr_headers :: "(string \<times> string) list"
  nr_data :: "string option"
  nr_type :: string

record cookie =
  cookie_name :: string
  cookie_domain :: string
  cookie_value :: string

record fp_flags =
  canvas :: bool
  webgl :: bool
  fonts :: bool
  audio :: bool

record wallet_tracking =
  detected :: bool
  methods :: "string list"

text \<open>
  The record stored under \<^verbatim>\<open>this.results[url]\<close>. The object literal of \<^verbatim>\<open>analyze\<close>
  creates seven properties; \<^verbatim>\<open>localStorage\<close> and \<^verbatim>\<open>errors\<close> are added later by
  assignment, so they are optional here (\<open>None\<close> is a property that does not exist).
\<close>

record analysis_record =
  url :: string
  timestamp :: string
  trackingScripts :: "script_el list"
  networkRequests :: "network_entry list"
  cookies :: "cookie list"
  fingerprinting :: fp_flags
  walletTracking :: wallet_tracking
  localStorage :: "(string \<times> string) list option"
  errors :: "string list option"

text \<open>
  Side effects outside the results mapping, in the order in which they happen.
\<close>

datatype event =
    BrowserLaunched
  | ScreenshotAttempt string
  | BrowserClosed
  | PersistAttempt "(string \<times> analysis_record) list"
  | LoggedError string

text \<open>
  \<^verbatim>\<open>this.results\<close> is a plain object used as a mapping from URL to record. For keys that
  are absolute URLs its own properties are kept in insertion order and assigning to an
  existing key replaces the value in place: an association list changed with
  \<^const>\<open>AList.update\<close>.
\<close>

record analyzer =
  results :: "(string \<times> analysis_record) list"
  trace :: "event list"

definition new_analyzer :: analyzer where
  "new_analyzer = \<lparr>results = [], trace = []\<rparr>"

section \<open>The browser as seen by one call of analyze\<close>

text \<open>The three browser entry points patched by \<^verbatim>\<open>setupFingerprintingDetection\<close>.\<close>

datatype fp_api = ToDataURL | GetParameter | CreateOscillator

text \<open>
  Everything the browser automation engine, the visited page, the clock and the file
  system contribute to one call of \<^verbatim>\<open>analyze\<close>. Each awaited call of the engine has an
  outcome; the lists describe what the page does while it is open. \<open>launch\<close> stands for
  the three calls that open the session (browser, context, page): a rejection of any of
  them makes \<^verbatim>\<open>analyze\<close> reject before the record of the URL is created. \<open>route\<close> stands for
  \<^verbatim>\<open>page.route\<close>, \<open>instrument\<close> for the \<^verbatim>\<open>page.evaluate\<close> that installs the patches,
  \<open>navigation\<close> for \<^verbatim>\<open>page.goto\<close>, and \<open>close\<close> for \<^verbatim>\<open>browser.close\<close>.
\<close>

record world =
  clock :: string
  launch :: "unit outcome"
  route :: "unit outcome"
  instrument :: "unit outcome"
  navigation :: "unit outcome"
  page_requests :: "request list"
  page_api_calls :: "fp_api list"
  dom_scripts :: "script_el list outcome"
  storage_items :: "(string \<times> string) list outcome"
  context_cookies :: "cookie list outcome"
  wallet_page :: "(bool \<times> string) outcome"
  screenshot_ok :: bool
  close :: "unit outcome"
  write_ok :: bool

text \<open>
  The page: whether the request interceptor and the patched entry points are installed,
  and the flags of \<^verbatim>\<open>window._fingerprinting\<close> (a flag is \<open>True\<close> when the property has
  been set to \<^verbatim>\<open>true\<close>).
\<close>

record page =
  routed :: bool
  patched :: bool
  win_canvas :: bool
  win_webgl :: bool
  win_audio :: bool

definition blank_page :: page where
  "blank_page = \<lparr>routed = False, patched = False,
     win_canvas = False, win_webgl = False, win_audio = False\<rparr>"

section \<open>Classification helpers\<close>

definition isTrackingRequest :: "string \<Rightarrow> bool" where
  "isTrackingRequest u =
     list_ex (\<lambda>pattern. js_includes u pattern)
       [''cookie3.co'', ''analytics'', ''tracking'', ''collect'', ''wallet'']"

definition categorizeRequest :: "string \<Rightarrow> string" where
  "categorizeRequest u =
     (if js_includes u ''cookie3.co'' then ''cookie3''
      else if js_includes u ''analytics'' then ''analytics''
      else if js_includes u ''tracking'' then ''tracking''
      else ''other'')"

definition isTrackingCookie :: "cookie \<Rightarrow> bool" where
  "isTrackingCookie c =
     list_ex (\<lambda>pattern. js_includes (cookie_name c) pattern \<or> js_includes (cookie_domain c) pattern)
       [''cookie3'', ''analytics'', ''_ga'', ''track'']"

text \<open>The filter callback inside \<^verbatim>\<open>analyzeTrackingScripts\<close>.\<close>

definition tracking_terms :: "string list" where
  "tracking_terms = [''cookie3'', ''analytics'', ''tracking'', ''wallet'', ''web3'']"

definition is_tracking_script :: "script_el \<Rightarrow> bool" where
  "is_tracking_script script =
     list_ex (\<lambda>term. js_includes (src script) term \<or> js_includes (content script) term)
       tracking_terms"

section \<open>Writing to the record of a URL\<close>

text \<open>
  \<^verbatim>\<open>this.results[url].field = value\<close>: a \<^verbatim>\<open>TypeError\<close> when the key is missing.
\<close>

definition modify_record ::
  "string \<Rightarrow> (analysis_record \<Rightarrow> analysis_record) \<Rightarrow> analyzer \<Rightarrow> unit outcome \<times> analyzer" where
  "modify_record u f a =
     (case map_of (results a) u of
        None \<Rightarrow> (Rejects ''TypeError'', a)
      | Some r \<Rightarrow> (Resolves (), a\<lparr>results := AList.update u (f r) (results a)\<rparr>))"

definition fresh_record :: "string \<Rightarrow> string \<Rightarrow> analysis_record" where
  "fresh_record u now =
     \<lparr>url = u, timestamp = now, trackingScripts = [], networkRequests = [], cookies = [],
      fingerprinting = \<lparr>canvas = False, webgl = False, fonts = False, audio = False\<rparr>,
      walletTracking = \<lparr>detected = False, methods = []\<rparr>,
      localStorage = None, errors = None\<rparr>"

section \<open>The steps of analyze\<close>

type_synonym session = "analyzer \<times> page"
type_synonym step = "session \<Rightarrow> unit outcome \<times> session"

text \<open>
  The route handler: runs once for every request the page sends while it is routed. It
  runs as a callback of the engine, so a \<^verbatim>\<open>TypeError\<close> in it would not reach
  \<^verbatim>\<open>analyze\<close>; the analyzer is then left as it was.
\<close>

definition network_entry_of :: "request \<Rightarrow> network_entry" where
  "network_entry_of rq =
     \<lparr>nr_url = req_url rq, nr_method = req_method rq, nr_headers = req_headers rq,
      nr_data = req_postData rq, nr_type = categorizeRequest (req_url rq)\<rparr>"

definition route_handler :: "string \<Rightarrow> analyzer \<Rightarrow> request \<Rightarrow> analyzer" where
  "route_handler u a rq =
     (if isTrackingRequest (req_url rq)
      then snd (modify_record u
             (\<lambda>r. r\<lparr>networkRequests := networkRequests r @ [network_entry_of rq]\<rparr>) a)
      else a)"

definition setupNetworkMonitoring :: "world \<Rightarrow> string \<Rightarrow> step" where
  "setupNetworkMonitoring w u s =
     (case route w of
        Rejects m \<Rightarrow> (Rejects m, s)
      | Resolves _ \<Rightarrow> (Resolves (), (fst s, (snd s)\<lparr>routed := True\<rparr>)))"

definition setupFingerprintingDetection :: "world \<Rightarrow> string \<Rightarrow> step" where
  "setupFingerprintingDetection w u s =
     (case instrument w of
        Rejects m \<Rightarrow> (Rejects m, s)
      | Resolves _ \<Rightarrow> (Resolves (), (fst s, (snd s)\<lparr>patched := True\<rparr>)))"

text \<open>
  A call of a browser entry point by the page. The patched version sets its flag in
  \<^verbatim>\<open>window._fingerprinting\<close> and then calls the original. The patches are taken to stay
  in place while the page loads, as the instrumentation intends.
\<close>

fun invoke :: "page \<Rightarrow> fp_api \<Rightarrow> page" where
  "invoke p ToDataURL = (if patched p then p\<lparr>win_canvas := True\<rparr> else p)"
| "invoke p GetParameter = (if patched p then p\<lparr>win_webgl := True\<rparr> else p)"
| "invoke p CreateOscillator = (if patched p then p\<lparr>win_audio := True\<rparr> else p)"

text \<open>
  \<^verbatim>\<open>page.goto\<close>: the page runs (its requests pass through the route handler, its calls
  through the patched entry points), then the navigation promise settles. Whatever the
  page sends or calls is attributed to this step, also when the promise rejects: a
  navigation that times out has let the page run until then.
\<close>

definition goto :: "world \<Rightarrow> string \<Rightarrow> step" where
  "goto w u s =
     (let a' = (if routed (snd s) then foldl (route_handler u) (fst s) (page_requests w)
                else fst s);
          p' = foldl invoke (snd s) (page_api_calls w)
      in (navigation w, (a', p')))"

definition analyzeTrackingScripts :: "world \<Rightarrow> string \<Rightarrow> step" where
  "analyzeTrackingScripts w u s =
     (case dom_scripts w of
        Rejects m \<Rightarrow> (Rejects m, s)
      | Resolves els \<Rightarrow>
          (case modify_record u (\<lambda>r. r\<lparr>trackingScripts := filter is_tracking_script els\<rparr>) (fst s)
           of (res, a') \<Rightarrow> (res, (a', snd s))))"

text \<open>
  The plain object \<^verbatim>\<open>data\<close> that the loop over \<^verbatim>\<open>localStorage\<close> fills. A page can store
  any key, so the object is modelled with the key order of a JavaScript object: keys that
  are array indices (canonical decimal numerals below \<open>2\<^sup>3\<^sup>2 - 1\<close>) come first, in
  ascending numeric order, the other keys follow in insertion order; assigning to an
  existing key replaces its value in place, and assigning a string to \<^verbatim>\<open>__proto__\<close> stores
  nothing.
\<close>

definition is_digit :: "char \<Rightarrow> bool" where
  "is_digit c = (48 \<le> (of_char c :: int) \<and> (of_char c :: int) \<le> 57)"

fun digits_value :: "int \<Rightarrow> string \<Rightarrow> int" where
  "digits_value acc [] = acc"
| "digits_value acc (c # cs) = digits_value (10 * acc + (of_char c - 48)) cs"

definition array_index :: "string \<Rightarrow> int option" where
  "array_index k =
     (case k of
        [] \<Rightarrow> None
      | c # cs \<Rightarrow>
          if list_all is_digit k \<and> (cs = [] \<or> c \<noteq> CHR ''0'') \<and> digits_value 0 k < 4294967295
          then Some (digits_value 0 k) else None)"

fun insert_index ::
  "int \<Rightarrow> string \<Rightarrow> string \<Rightarrow> (string \<times> string) list \<Rightarrow> (string \<times> string) list" where
  "insert_index n k v [] = [(k, v)]"
| "insert_index n k v ((k', v') # rest) =
     (case array_index k' of
        Some n' \<Rightarrow>
          if n' < n then (k', v') # insert_index n k v rest else (k, v) # (k', v') # rest
      | None \<Rightarrow> (k, v) # (k', v') # rest)"

definition js_set :: "string \<Rightarrow> string \<Rightarrow> (string \<times> string) list \<Rightarrow> (string \<times> string) list" where
  "js_set k v obj =
     (if k = ''__proto__'' then obj
      else case map_of obj k of
             Some old \<Rightarrow> AList.update k v obj
           | None \<Rightarrow>
               (case array_index k of
                  Some n \<Rightarrow> insert_index n k v obj
                | None \<Rightarrow> obj @ [(k, v)]))"

fun storage_loop :: "(string \<times> string) list \<Rightarrow> (string \<times> string) list \<Rightarrow> (string \<times> string) list" where
  "storage_loop [] data = data"
| "storage_loop ((k, v) # rest) data = storage_loop rest (js_set k v data)"

definition analyzeLocalStorage :: "world \<Rightarrow> string \<Rightarrow> step" where
  "analyzeLocalStorage w u s =
     (case storage_items w of
        Rejects m \<Rightarrow> (Rejects m, s)
      | Resolves items \<Rightarrow>
          (case modify_record u (\<lambda>r. r\<lparr>localStorage := Some (storage_loop items [])\<rparr>) (fst s)
           of (res, a') \<Rightarrow> (res, (a', snd s))))"

definition analyzeCookies :: "world \<Rightarrow> string \<Rightarrow> step" where
  "analyzeCookies w u s =
     (case context_cookies w of
        Rejects m \<Rightarrow> (Rejects m, s)
      | Resolves cs \<Rightarrow>
          (case modify_record u (\<lambda>r. r\<lparr>cookies := filter isTrackingCookie cs\<rparr>) (fst s)
           of (res, a') \<Rightarrow> (res, (a', snd s))))"

text \<open>The function evaluated in the page by \<^verbatim>\<open>analyzeWalletTracking\<close>.\<close>

definition wallet_patterns :: "string list" where
  "wallet_patterns = [''accountsChanged'', ''ethereum.on('', ''wallet.on('', ''web3'']"

fun scan_patterns :: "string \<Rightarrow> string list \<Rightarrow> wallet_tracking \<Rightarrow> wallet_tracking" where
  "scan_patterns source [] res = res"
| "scan_patterns source (pattern # rest) res =
     scan_patterns source rest
       (if js_includes source pattern
        then res\<lparr>methods := methods res @ [pattern], detected := True\<rparr>
        else res)"

definition wallet_eval :: "bool \<Rightarrow> string \<Rightarrow> wallet_tracking" where
  "wallet_eval has_ethereum source =
     scan_patterns source wallet_patterns
       (if has_ethereum then \<lparr>detected = True, methods = [''ethereum'']\<rparr>
        else \<lparr>detected = False, methods = []\<rparr>)"

definition analyzeWalletTracking :: "world \<Rightarrow> string \<Rightarrow> step" where
  "analyzeWalletTracking w u s =
     (case wallet_page w of
        Rejects m \<Rightarrow> (Rejects m, s)
      | Resolves (has_ethereum, source) \<Rightarrow>
          (case modify_record u (\<lambda>r. r\<lparr>walletTracking := wallet_eval has_ethereum source\<rparr>) (fst s)
           of (res, a') \<Rightarrow> (res, (a', snd s))))"

text \<open>
  \<^verbatim>\<open>saveScreenshot\<close> and \<^verbatim>\<open>saveResults\<close> catch their own file-system errors and only log
  them, so neither can reject.
\<close>

definition log_event :: "event \<Rightarrow> analyzer \<Rightarrow> analyzer" where
  "log_event e a = a\<lparr>trace := trace a @ [e]\<rparr>"

definition saveScreenshot :: "world \<Rightarrow> string \<Rightarrow> step" where
  "saveScreenshot w u s =
     (let a1 = log_event (ScreenshotAttempt u) (fst s);
          a2 = (if screenshot_ok w then a1 else log_event (LoggedError ''Error saving screenshot:'') a1)
      in (Resolves (), (a2, snd s)))"

definition saveResults :: "world \<Rightarrow> analyzer \<Rightarrow> analyzer" where
  "saveResults w a =
     (let a1 = log_event (PersistAttempt (results a)) a
      in if write_ok w then a1 else log_event (LoggedError ''Error saving results:'') a1)"

text \<open>Statements in sequence: the first rejection skips the rest.\<close>

fun run_steps :: "step list \<Rightarrow> step" where
  "run_steps [] s = (Resolves (), s)"
| "run_steps (f # fs) s =
     (case f s of
        (Rejects m, s') \<Rightarrow> (Rejects m, s')
      | (Resolves _, s') \<Rightarrow> run_steps fs s')"

text \<open>The body of the \<^verbatim>\<open>try\<close> block of \<^verbatim>\<open>analyze\<close>.\<close>

definition analyze_try :: "world \<Rightarrow> string \<Rightarrow> step" where
  "analyze_try w u =
     run_steps
       [setupNetworkMonitoring w u,
        setupFingerprintingDetection w u,
        goto w u,
        analyzeTrackingScripts w u,
        analyzeLocalStorage w u,
        analyzeCookies w u,
        analyzeWalletTracking w u,
        saveScreenshot w u]"

text \<open>The \<^verbatim>\<open>catch\<close> clause: log the error and store its message as a one-element list.\<close>

definition analyze_catch :: "string \<Rightarrow> string \<Rightarrow> analyzer \<Rightarrow> unit outcome \<times> analyzer" where
  "analyze_catch u m a =
     modify_record u (\<lambda>r. r\<lparr>errors := Some [m]\<rparr>) (log_event (LoggedError m) a)"

text \<open>
  \<^verbatim>\<open>analyze(url)\<close>. The result is the outcome of the returned promise (the value of
  \<^verbatim>\<open>this.results[url]\<close>, \<open>None\<close> for \<^verbatim>\<open>undefined\<close>) and the analyzer afterwards.
\<close>

definition analyze ::
  "world \<Rightarrow> string \<Rightarrow> analyzer \<Rightarrow> analysis_record option outcome \<times> analyzer" where
  "analyze w u a =
     (case launch w of
        Rejects m \<Rightarrow> (Rejects m, a)
      | Resolves _ \<Rightarrow>
          (let a1 = log_event BrowserLaunched
                      (a\<lparr>results := AList.update u (fresh_record u (clock w)) (results a)\<rparr>);
               (tried, (a2, p)) = analyze_try w u (a1, blank_page);
               (caught, a3) = (case tried of
                                 Rejects m \<Rightarrow> analyze_catch u m a2
                               | Resolves _ \<Rightarrow> (Resolves (), a2))
           in case caught of
                Rejects m \<Rightarrow> (Rejects m, a3)
              | Resolves _ \<Rightarrow>
                  (case close w of
                     Rejects m \<Rightarrow> (Rejects m, a3)
                   | Resolves _ \<Rightarrow>
                       (let a4 = saveResults w (log_event BrowserClosed a3)
                        in (Resolves (map_of (results a4) u), a4)))))"

section \<open>The aggregate report\<close>

record tracking_implementations =
  cookie3 :: nat
  googleAnalytics :: nat
  customTracking :: nat

record report =
  analyzedUrls :: nat
  trackingImplementations :: tracking_implementations
  fingerprintingDetected :: nat
  walletTrackingDetected :: nat
  details :: "(string \<times> analysis_record) list"

text \<open>One iteration of the \<^verbatim>\<open>for ... in\<close> loop of \<^verbatim>\<open>generateReport\<close>.\<close>

definition tally :: "analysis_record \<Rightarrow> report \<Rightarrow> report" where
  "tally result rep =
     (let rep1 = (if list_ex (\<lambda>s. js_includes (src s) ''cookie3'') (trackingScripts result)
                  then rep\<lparr>trackingImplementations :=
                         (trackingImplementations rep)\<lparr>cookie3 := cookie3 (trackingImplementations rep) + 1\<rparr>\<rparr>
                  else rep);
          rep2 = (if canvas (fingerprinting result) \<or> webgl (fingerprinting result)
                     \<or> audio (fingerprinting result)
                  then rep1\<lparr>fingerprintingDetected := fingerprintingDetected rep1 + 1\<rparr>
                  else rep1)
      in if detected (walletTracking result)
         then rep2\<lparr>walletTrackingDetected := walletTrackingDetected rep2 + 1\<rparr>
         else rep2)"

text \<open>
  The loop visits every own key of \<^verbatim>\<open>this.results\<close> once, in order, and reads the value
  stored under it.
\<close>

fun report_loop :: "(string \<times> analysis_record) list \<Rightarrow> report \<Rightarrow> report" where
  "report_loop [] rep = rep"
| "report_loop ((u, result) # rest) rep = report_loop rest (tally result rep)"

text \<open>
  \<^verbatim>\<open>generateReport()\<close> is a method of the analyzer; the analyzer after the call is part
  of the result, so that what the method does to \<^verbatim>\<open>this\<close> can be stated.
\<close>

definition generateReport :: "analyzer \<Rightarrow> report \<times> analyzer" where
  "generateReport a =
     (report_loop (results a)
        \<lparr>analyzedUrls = length (results a),
         trackingImplementations = \<lparr>cookie3 = 0, googleAnalytics = 0, customTracking = 0\<rparr>,
         fingerprintingDetected = 0,
         walletTrackingDetected = 0,
         details = results a\<rparr>,
      a)"

text \<open>The analyzers a program can hold: a new one, changed only by calls of analyze.\<close>

inductive reachable :: "analyzer \<Rightarrow> bool" where
  reachable_new: "reachable new_analyzer"
| reachable_analyze: "reachable a \<Longrightarrow> analyze w u a = (res, a') \<Longrightarrow> reachable a'"

section \<open>Notions used to state and prove the properties\<close>

text \<open>
  The outcomes of the awaited calls of the \<^verbatim>\<open>try\<close> block, in the order of the block,
  and the first rejection among them.
\<close>

definition void :: "'a outcome \<Rightarrow> unit outcome" where
  "void x = (case x of Rejects m \<Rightarrow> Rejects m | Resolves _ \<Rightarrow> Resolves ())"

definition step_outcomes :: "world \<Rightarrow> unit outcome list" where
  "step_outcomes w =
     [route w, instrument w, navigation w, void (dom_scripts w), void (storage_items w),
      void (context_cookies w), void (wallet_page w), Resolves ()]"

fun first_rejected :: "unit outcome list \<Rightarrow> unit outcome" where
  "first_rejected [] = Resolves ()"
| "first_rejected (Rejects m # rest) = Rejects m"
| "first_rejected (Resolves x # rest) = first_rejected rest"

definition try_outcome :: "world \<Rightarrow> unit outcome" where
  "try_outcome w = first_rejected (step_outcomes w)"

text \<open>The properties of a record that no statement of the \<^verbatim>\<open>try\<close> block assigns.\<close>

definition kept :: "analysis_record \<Rightarrow> analysis_record \<Rightarrow> bool" where
  "kept r r' = (url r' = url r \<and> timestamp r' = timestamp r
                \<and> fingerprinting r' = fingerprinting r \<and> errors r' = errors r)"

text \<open>
  \<open>evolves u a a'\<close>: from \<open>a\<close> to \<open>a'\<close> only the record of \<open>u\<close> was rewritten (in
  its place, keeping the properties above) and events were appended to the trace.
\<close>

definition evolves :: "string \<Rightarrow> analyzer \<Rightarrow> analyzer \<Rightarrow> bool" where
  "evolves u a a' =
     (\<exists>r r' tr. map_of (results a) u = Some r \<and> results a' = AList.update u r' (results a)
                \<and> trace a' = trace a @ tr \<and> kept r r')"

definition step_spec :: "string \<Rightarrow> step \<Rightarrow> unit outcome \<Rightarrow> bool" where
  "step_spec u f res =
     (\<forall>a p. (\<exists>r. map_of (results a) u = Some r) \<longrightarrow>
        (\<exists>a' p'. f (a, p) = (res, (a', p')) \<and> evolves u a a'))"

definition no_flags :: fp_flags where
  "no_flags = \<lparr>canvas = False, webgl = False, fonts = False, audio = False\<rparr>"

section \<open>Concrete pages\<close>

definition uniswap :: string where
  "uniswap = ''https://app.uniswap.org''"

text \<open>A page on which every call of the engine succeeds and nothing is observed.\<close>

definition quiet_world :: world where
  "quiet_world =
     \<lparr>clock = ''2024-01-01T00:00:00.000Z'',
      launch = Resolves (), route = Resolves (), instrument = Resolves (),
      navigation = Resolves (), page_requests = [], page_api_calls = [],
      dom_scripts = Resolves [], storage_items = Resolves [], context_cookies = Resolves [],
      wallet_page = Resolves (False, ''<html></html>''),
      screenshot_ok = True, close = Resolves (), write_ok = True\<rparr>"

text \<open>A page that exports a canvas as a data URL while it loads.\<close>

definition canvas_world :: world where
  "canvas_world = quiet_world\<lparr>page_api_calls := [ToDataURL]\<rparr>"

text \<open>
  A page that sends one request to an analytics host and never becomes idle, so that the
  navigation times out.
\<close>

definition beacon :: request where
  "beacon = \<lparr>req_url = ''https://cookie3.co/analytics'', req_method = ''POST'',
              req_headers = [], req_postData = None\<rparr>"

definition timeout_world :: world where
  "timeout_world =
     quiet_world\<lparr>page_requests := [beacon],
                  navigation := Rejects ''Timeout 30000ms exceeded''\<rparr>"

text \<open>
  The page whose navigation times out, in a browser that then fails to close; and a
  machine on which the browser cannot be launched.
\<close>

definition stuck_world :: world where
  "stuck_world = timeout_world\<lparr>close := Rejects ''Target closed''\<rparr>"

definition no_browser_world :: world where
  "no_browser_world = quiet_world\<lparr>launch := Rejects ''Failed to launch chromium''\<rparr>"

text \<open>A page with an injected provider whose markup matches every wallet pattern twice.\<close>

definition wallet_markup :: string where
  "wallet_markup =
     ''ethereum.on(accountsChanged) wallet.on(web3) ethereum.on(accountsChanged) wallet.on(web3)''"

text \<open>Script elements: one with a capitalised name, one lower-case, one inline.\<close>

definition capital_script :: script_el where
  "capital_script = \<lparr>src = ''https://x.com/Analytics.js'', content = []\<rparr>"

definition lower_script :: script_el where
  "lower_script = \<lparr>src = ''https://x.com/analytics.js'', content = []\<rparr>"

definition inline_script :: script_el where
  "inline_script = \<lparr>src = [], content = ''window.cookie3 = {}''\<rparr>"

definition scripts_world :: world where
  "scripts_world =
     quiet_world\<lparr>dom_scripts := Resolves [capital_script, lower_script, inline_script]\<rparr>"

text \<open>An analyzer that has analyzed one URL before, and a record with an inline script only.\<close>

definition revisited :: analyzer where
  "revisited =
     \<lparr>results = [(uniswap, fresh_record uniswap ''2023-12-31T00:00:00.000Z'')], trace = []\<rparr>"

definition inline_only :: analysis_record where
  "inline_only = (fresh_record uniswap ''2024-01-01T00:00:00.000Z'')\<lparr>trackingScripts := [inline_script]\<rparr>"

section \<open>Substring search is what it should be\<close>

lemma starts_with_iff: "starts_with s pat \<longleftrightarrow> (\<exists>after. s = pat @ after)"
  by (induction s pat rule: starts_with.induct) auto

lemma js_includes_iff: "js_includes s pat \<longleftrightarrow> occurs_in pat s"
proof (induction s)
  case Nil
  show ?case by (auto simp: occurs_in_def)
next
  case (Cons c cs)
  have "occurs_in pat (c # cs) \<longleftrightarrow> (\<exists>after. c # cs = pat @ after) \<or> occurs_in pat cs"
    unfolding occurs_in_def
  proof
    assume "\<exists>before after. c # cs = before @ pat @ after"
    then obtain before after where e: "c # cs = before @ pat @ after" by blast
    show "(\<exists>after. c # cs = pat @ after) \<or> (\<exists>before after. cs = before @ pat @ after)"
    proof (cases before)
      case Nil
      with e show ?thesis by auto
    next
      case (Cons b bs)
      with e have "cs = bs @ pat @ after" by simp
      then show ?thesis by blast
    qed
  next
    assume "(\<exists>after. c # cs = pat @ after) \<or> (\<exists>before after. cs = before @ pat @ after)"
    then show "\<exists>before after. c # cs = before @ pat @ after"
    proof
      assume "\<exists>after. c # cs = pat @ after"
      then obtain after where "c # cs = [] @ pat @ after" by auto
      then show ?thesis by blast
    next
      assume "\<exists>before after. cs = before @ pat @ after"
      then obtain before after where "c # cs = (c # before) @ pat @ after" by auto
      then show ?thesis by blast
    qed
  qed
  with Cons show ?case by (simp add: starts_with_iff)
qed

text \<open>
  C5: the category of a request URL is \<open>cookie3\<close> if the URL contains \<open>cookie3.co\<close>, else
  \<open>analytics\<close> if it contains \<open>analytics\<close>, else \<open>tracking\<close> if it contains
  \<open>tracking\<close>, else \<open>other\<close>; a URL that contains both \<open>cookie3.co\<close> and
  \<open>analytics\<close> is a \<open>cookie3\<close> request.
\<close>

theorem categorizeRequest_precedence:
  "categorizeRequest u =
     (if occurs_in ''cookie3.co'' u then ''cookie3''
      else if occurs_in ''analytics'' u then ''analytics''
      else if occurs_in ''tracking'' u then ''tracking''
      else ''other'')
   \<and> (occurs_in ''cookie3.co'' u \<and> occurs_in ''analytics'' u \<longrightarrow> categorizeRequest u = ''cookie3'')"
  by (simp add: categorizeRequest_def js_includes_iff)

theorem categorizeRequest_precedence_witness:
  "occurs_in ''cookie3.co'' ''https://cookie3.co/analytics.js''
   \<and> occurs_in ''analytics'' ''https://cookie3.co/analytics.js''
   \<and> categorizeRequest ''https://cookie3.co/analytics.js'' = ''cookie3''"
proof -
  have a: "occurs_in ''cookie3.co'' ''https://cookie3.co/analytics.js''"
    unfolding js_includes_iff [symmetric] by simp
  have b: "occurs_in ''analytics'' ''https://cookie3.co/analytics.js''"
    unfolding js_includes_iff [symmetric] by simp
  from a b categorizeRequest_precedence [of "''https://cookie3.co/analytics.js''"]
  show ?thesis by blast
qed

lemma is_tracking_script_iff:
  "is_tracking_script s \<longleftrightarrow>
     (\<exists>t \<in> {''cookie3'', ''analytics'', ''tracking'', ''wallet'', ''web3''}.
        occurs_in t (src s) \<or> occurs_in t (content s))"
  by (simp add: is_tracking_script_def tracking_terms_def js_includes_iff)

lemma modify_record_Some:
  "map_of (results a) u = Some r \<Longrightarrow>
   modify_record u f a = (Resolves (), a\<lparr>results := AList.update u (f r) (results a)\<rparr>)"
  by (simp add: modify_record_def)

lemma scan_methods:
  "methods (scan_patterns source ps res) = methods res @ filter (js_includes source) ps"
  by (induction ps arbitrary: res) auto

lemma scan_detected:
  "detected (scan_patterns source ps res) \<longleftrightarrow> detected res \<or> (\<exists>p\<in>set ps. js_includes source p)"
  by (induction ps arbitrary: res) auto

lemma wallet_eval_methods:
  "methods (wallet_eval eth source) =
     (if eth then [''ethereum''] else []) @
     filter (\<lambda>p. occurs_in p source) [''accountsChanged'', ''ethereum.on('', ''wallet.on('', ''web3'']"
  by (simp add: wallet_eval_def scan_methods wallet_patterns_def js_includes_iff)

lemma wallet_eval_detected:
  "detected (wallet_eval eth source) \<longleftrightarrow>
     eth \<or> (\<exists>p \<in> {''accountsChanged'', ''ethereum.on('', ''wallet.on('', ''web3''}. occurs_in p source)"
  by (simp add: wallet_eval_def scan_detected wallet_patterns_def js_includes_iff)

lemma wallet_eval_distinct: "distinct (methods (wallet_eval eth source))"
  by (simp add: wallet_eval_methods)

section \<open>The steps of the try block rewrite one record only\<close>

lemma kept_refl: "kept r r"
  by (simp add: kept_def)

lemma kept_trans: "kept r r' \<Longrightarrow> kept r' r'' \<Longrightarrow> kept r r''"
  by (simp add: kept_def)

lemma evolves_refl: "map_of (results a) u = Some r \<Longrightarrow> evolves u a a"
  unfolding evolves_def
  by (rule exI [of _ r], rule exI [of _ r], rule exI [of _ "[]"])
     (simp add: update_triv kept_refl)

lemma evolves_entry: "evolves u a a' \<Longrightarrow> \<exists>r'. map_of (results a') u = Some r'"
  by (auto simp: evolves_def update_conv')

lemma evolves_trans:
  assumes "evolves u a b" and "evolves u b c"
  shows "evolves u a c"
proof -
  from assms(1) obtain r r' tr where
    1: "map_of (results a) u = Some r" "results b = AList.update u r' (results a)"
       "trace b = trace a @ tr" "kept r r'"
    unfolding evolves_def by blast
  from assms(2) obtain s s' ts where
    2: "map_of (results b) u = Some s" "results c = AList.update u s' (results b)"
       "trace c = trace b @ ts" "kept s s'"
    unfolding evolves_def by blast
  from 1(2) 2(1) have "s = r'" by (simp add: update_conv')
  with 1(4) 2(4) have k: "kept r s'" by (blast intro: kept_trans)
  from 1(2) 2(2) have res: "results c = AList.update u s' (results a)" by simp
  from 1(3) 2(3) have tr: "trace c = trace a @ (tr @ ts)" by simp
  from 1(1) res tr k show ?thesis unfolding evolves_def by blast
qed

lemma modify_record_evolves:
  assumes "map_of (results a) u = Some r" and "kept r (f r)"
  shows "\<exists>a'. modify_record u f a = (Resolves (), a') \<and> evolves u a a'"
proof -
  let ?a' = "a\<lparr>results := AList.update u (f r) (results a)\<rparr>"
  have "evolves u a ?a'"
    unfolding evolves_def
    using assms by (intro exI [of _ r] exI [of _ "f r"] exI [of _ "[]"]) simp
  with assms(1) show ?thesis by (simp add: modify_record_Some)
qed

lemma route_handler_evolves:
  assumes "map_of (results a) u = Some r"
  shows "evolves u a (route_handler u a rq)"
proof (cases "isTrackingRequest (req_url rq)")
  case True
  have "kept r (r\<lparr>networkRequests := networkRequests r @ [network_entry_of rq]\<rparr>)"
    by (simp add: kept_def)
  from modify_record_evolves [OF assms, of "\<lambda>r. r\<lparr>networkRequests := networkRequests r @ [network_entry_of rq]\<rparr>", OF this]
  show ?thesis using True by (auto simp: route_handler_def)
next
  case False
  with assms show ?thesis by (simp add: route_handler_def evolves_refl)
qed

lemma foldl_route_handler_evolves:
  "map_of (results a) u = Some r \<Longrightarrow> evolves u a (foldl (route_handler u) a rqs)"
proof (induction rqs arbitrary: a r)
  case Nil
  then show ?case by (simp add: evolves_refl)
next
  case (Cons rq rqs)
  have 1: "evolves u a (route_handler u a rq)" using Cons.prems by (rule route_handler_evolves)
  then obtain r' where "map_of (results (route_handler u a rq)) u = Some r'"
    using evolves_entry by blast
  then have "evolves u (route_handler u a rq) (foldl (route_handler u) (route_handler u a rq) rqs)"
    by (rule Cons.IH)
  with 1 show ?case by (auto intro: evolves_trans)
qed

lemma log_event_evolves: "map_of (results a) u = Some r \<Longrightarrow> evolves u a (log_event e a)"
  unfolding evolves_def
  by (rule exI [of _ r], rule exI [of _ r], rule exI [of _ "[e]"])
     (simp add: update_triv kept_refl log_event_def)

lemma step_setupNetworkMonitoring: "step_spec u (setupNetworkMonitoring w u) (route w)"
  unfolding step_spec_def setupNetworkMonitoring_def
  by (cases "route w") (auto intro: evolves_refl)

lemma step_setupFingerprintingDetection:
  "step_spec u (setupFingerprintingDetection w u) (instrument w)"
  unfolding step_spec_def setupFingerprintingDetection_def
  by (cases "instrument w") (auto intro: evolves_refl)

lemma step_goto: "step_spec u (goto w u) (navigation w)"
  unfolding step_spec_def goto_def
  by (auto simp: Let_def intro: evolves_refl foldl_route_handler_evolves)

lemma step_analyzeTrackingScripts:
  "step_spec u (analyzeTrackingScripts w u) (void (dom_scripts w))"
proof (cases "dom_scripts w")
  case (Rejects m)
  then show ?thesis
    by (auto simp: step_spec_def analyzeTrackingScripts_def void_def intro: evolves_refl)
next
  case (Resolves els)
  show ?thesis
    unfolding step_spec_def
  proof (intro allI impI)
    fix a :: analyzer and p :: page
    assume "\<exists>r. map_of (results a) u = Some r"
    then obtain r where r: "map_of (results a) u = Some r" by blast
    have "kept r (r\<lparr>trackingScripts := filter is_tracking_script els\<rparr>)" by (simp add: kept_def)
    from modify_record_evolves [OF r, of "\<lambda>r. r\<lparr>trackingScripts := filter is_tracking_script els\<rparr>", OF this]
    show "\<exists>a' p'. analyzeTrackingScripts w u (a, p) = (void (dom_scripts w), a', p') \<and> evolves u a a'"
      using Resolves by (auto simp: analyzeTrackingScripts_def void_def)
  qed
qed

lemma step_analyzeLocalStorage:
  "step_spec u (analyzeLocalStorage w u) (void (storage_items w))"
proof (cases "storage_items w")
  case (Rejects m)
  then show ?thesis
    by (auto simp: step_spec_def analyzeLocalStorage_def void_def intro: evolves_refl)
next
  case (Resolves items)
  show ?thesis
    unfolding step_spec_def
  proof (intro allI impI)
    fix a :: analyzer and p :: page
    assume "\<exists>r. map_of (results a) u = Some r"
    then obtain r where r: "map_of (results a) u = Some r" by blast
    have "kept r (r\<lparr>localStorage := Some (storage_loop items [])\<rparr>)" by (simp add: kept_def)
    from modify_record_evolves [OF r, of "\<lambda>r. r\<lparr>localStorage := Some (storage_loop items [])\<rparr>", OF this]
    show "\<exists>a' p'. analyzeLocalStorage w u (a, p) = (void (storage_items w), a', p') \<and> evolves u a a'"
      using Resolves by (auto simp: analyzeLocalStorage_def void_def)
  qed
qed

lemma step_analyzeCookies:
  "step_spec u (analyzeCookies w u) (void (context_cookies w))"
proof (cases "context_cookies w")
  case (Rejects m)
  then show ?thesis
    by (auto simp: step_spec_def analyzeCookies_def void_def intro: evolves_refl)
next
  case (Resolves cs)
  show ?thesis
    unfolding step_spec_def
  proof (intro allI impI)
    fix a :: analyzer and p :: page
    assume "\<exists>r. map_of (results a) u = Some r"
    then obtain r where r: "map_of (results a) u = Some r" by blast
    have "kept r (r\<lparr>cookies := filter isTrackingCookie cs\<rparr>)" by (simp add: kept_def)
    from modify_record_evolves [OF r, of "\<lambda>r. r\<lparr>cookies := filter isTrackingCookie cs\<rparr>", OF this]
    show "\<exists>a' p'. analyzeCookies w u (a, p) = (void (context_cookies w), a', p') \<and> evolves u a a'"
      using Resolves by (auto simp: analyzeCookies_def void_def)
  qed
qed

lemma step_analyzeWalletTracking:
  "step_spec u (analyzeWalletTracking w u) (void (wallet_page w))"
proof (cases "wallet_page w")
  case (Rejects m)
  then show ?thesis
    by (auto simp: step_spec_def analyzeWalletTracking_def void_def intro: evolves_refl)
next
  case (Resolves pg)
  obtain eth source where pg: "pg = (eth, source)" by (cases pg)
  show ?thesis
    unfolding step_spec_def
  proof (intro allI impI)
    fix a :: analyzer and p :: page
    assume "\<exists>r. map_of (results a) u = Some r"
    then obtain r where r: "map_of (results a) u = Some r" by blast
    have "kept r (r\<lparr>walletTracking := wallet_eval eth source\<rparr>)" by (simp add: kept_def)
    from modify_record_evolves [OF r, of "\<lambda>r. r\<lparr>walletTracking := wallet_eval eth source\<rparr>", OF this]
    show "\<exists>a' p'. analyzeWalletTracking w u (a, p) = (void (wallet_page w), a', p') \<and> evolves u a a'"
      using Resolves pg by (auto simp: analyzeWalletTracking_def void_def)
  qed
qed

lemma step_saveScreenshot: "step_spec u (saveScreenshot w u) (Resolves ())"
  unfolding step_spec_def saveScreenshot_def
proof (intro allI impI)
  fix a :: analyzer and p :: page
    assume "\<exists>r. map_of (results a) u = Some r"
  then obtain r where r: "map_of (results a) u = Some r" by blast
  let ?a1 = "log_event (ScreenshotAttempt u) a"
  have 1: "evolves u a ?a1" using r by (rule log_event_evolves)
  have "map_of (results ?a1) u = Some r" using r by (simp add: log_event_def)
  then have "evolves u ?a1 (log_event (LoggedError ''Error saving screenshot:'') ?a1)"
    by (rule log_event_evolves)
  with 1 have 2: "evolves u a (log_event (LoggedError ''Error saving screenshot:'') ?a1)"
    by (rule evolves_trans)
  from 1 2 show "\<exists>a' p'.
        (let a1 = log_event (ScreenshotAttempt u) (fst (a, p));
             a2 = if screenshot_ok w then a1 else log_event (LoggedError ''Error saving screenshot:'') a1
         in (Resolves (), a2, snd (a, p))) = (Resolves (), a', p') \<and> evolves u a a'"
    by (simp add: Let_def)
qed

lemma run_steps_spec:
  "list_all2 (step_spec u) fs outs \<Longrightarrow> map_of (results a) u = Some r \<Longrightarrow>
   \<exists>a' p'. run_steps fs (a, p) = (first_rejected outs, (a', p')) \<and> evolves u a a'"
proof (induction fs outs arbitrary: a p r rule: list_all2_induct)
  case Nil
  then show ?case by (simp add: evolves_refl)
next
  case (Cons f fs out outs)
  from Cons.hyps(1) Cons.prems obtain a1 p1 where
    f: "f (a, p) = (out, (a1, p1))" and e1: "evolves u a a1"
    unfolding step_spec_def by blast
  show ?case
  proof (cases out)
    case (Rejects m)
    with f e1 show ?thesis by simp
  next
    case (Resolves x)
    from e1 obtain r1 where "map_of (results a1) u = Some r1" using evolves_entry by blast
    from Cons.IH [OF this, of p1] obtain a' p' where
      "run_steps fs (a1, p1) = (first_rejected outs, (a', p'))" and "evolves u a1 a'" by blast
    with f e1 Resolves show ?thesis by (auto intro: evolves_trans)
  qed
qed

lemma analyze_try_spec:
  assumes "map_of (results a) u = Some r"
  shows "\<exists>a' p'. analyze_try w u (a, p) = (try_outcome w, (a', p')) \<and> evolves u a a'"
  unfolding analyze_try_def try_outcome_def step_outcomes_def
  by (rule run_steps_spec [OF _ assms])
     (simp add: step_setupNetworkMonitoring step_setupFingerprintingDetection step_goto
        step_analyzeTrackingScripts step_analyzeLocalStorage step_analyzeCookies
        step_analyzeWalletTracking step_saveScreenshot)

section \<open>What a call of analyze does\<close>

text \<open>
  The key order of the storage snapshot on a small example: indices first and ascending,
  the other keys as inserted, a second value for a key in place, nothing for
  \<^verbatim>\<open>__proto__\<close>.
\<close>

lemma storage_loop_key_order:
  "storage_loop
     [(''b'', ''1''), (''10'', ''2''), (''__proto__'', ''3''), (''2'', ''4''), (''b'', ''5''),
      (''007'', ''6'')] []
   = [(''2'', ''4''), (''10'', ''2''), (''b'', ''5''), (''007'', ''6'')]"
  by (simp add: js_set_def array_index_def is_digit_def)

lemma results_log_event: "results (log_event e a) = results a"
  by (simp add: log_event_def)

lemma trace_log_event: "trace (log_event e a) = trace a @ [e]"
  by (simp add: log_event_def)

lemma results_saveResults: "results (saveResults w a) = results a"
  by (simp add: saveResults_def log_event_def Let_def)

lemma trace_saveResults:
  "trace (saveResults w a) =
     trace a @ PersistAttempt (results a) #
       (if write_ok w then [] else [LoggedError ''Error saving results:''])"
  by (simp add: saveResults_def log_event_def Let_def)

lemma analyze_rejected_launch:
  "launch w = Rejects m \<Longrightarrow> analyze w u a = (Rejects m, a)"
  by (simp add: analyze_def)

lemma analyze_launched:
  assumes "launch w = Resolves x"
  shows "\<exists>r tr a3.
           results a3 = AList.update u r (results a)
         \<and> trace a3 = trace a @ BrowserLaunched # tr
         \<and> url r = u \<and> timestamp r = clock w \<and> fingerprinting r = no_flags
         \<and> errors r = (case try_outcome w of Rejects m \<Rightarrow> Some [m] | Resolves _ \<Rightarrow> None)
         \<and> (case try_outcome w of Rejects m \<Rightarrow> LoggedError m \<in> set tr | Resolves _ \<Rightarrow> True)
         \<and> analyze w u a =
             (case close w of
                Rejects m \<Rightarrow> (Rejects m, a3)
              | Resolves _ \<Rightarrow> (Resolves (Some r), saveResults w (log_event BrowserClosed a3)))"
proof -
  define fresh where "fresh = fresh_record u (clock w)"
  define a1 where "a1 = log_event BrowserLaunched (a\<lparr>results := AList.update u fresh (results a)\<rparr>)"
  have e1: "map_of (results a1) u = Some fresh"
    by (simp add: a1_def log_event_def update_conv')
  from analyze_try_spec [OF e1, of w blank_page] obtain a2 p where
    tried: "analyze_try w u (a1, blank_page) = (try_outcome w, (a2, p))" and ev: "evolves u a1 a2"
    by blast
  from ev e1 obtain r2 tr2 where
    r2: "results a2 = AList.update u r2 (results a1)" "trace a2 = trace a1 @ tr2" "kept fresh r2"
    unfolding evolves_def by auto
  have res2: "results a2 = AList.update u r2 (results a)"
    using r2(1) by (simp add: a1_def log_event_def)
  have tr2: "trace a2 = trace a @ BrowserLaunched # tr2"
    using r2(2) by (simp add: a1_def log_event_def)
  have k2: "url r2 = u" "timestamp r2 = clock w" "fingerprinting r2 = no_flags" "errors r2 = None"
    using r2(3) by (simp_all add: kept_def fresh_def fresh_record_def no_flags_def)
  have e2: "map_of (results a2) u = Some r2"
    by (simp add: res2 update_conv')
  show ?thesis
  proof (cases "try_outcome w")
    case (Resolves y)
    have "analyze w u a =
            (case close w of
               Rejects m \<Rightarrow> (Rejects m, a2)
             | Resolves _ \<Rightarrow> (Resolves (Some r2), saveResults w (log_event BrowserClosed a2)))"
      using assms tried Resolves e2
      by (simp add: analyze_def a1_def [symmetric] fresh_def [symmetric] Let_def
            results_saveResults results_log_event split: outcome.split)
    with res2 tr2 k2 Resolves show ?thesis
      by (intro exI [of _ r2] exI [of _ tr2] exI [of _ a2]) simp
  next
    case (Rejects m)
    define r3 where "r3 = r2\<lparr>errors := Some [m]\<rparr>"
    define a3 where "a3 = (log_event (LoggedError m) a2)\<lparr>results := AList.update u r3 (results a2)\<rparr>"
    have c: "analyze_catch u m a2 = (Resolves (), a3)"
      using e2 by (simp add: analyze_catch_def modify_record_def log_event_def a3_def r3_def)
    have res3: "results a3 = AList.update u r3 (results a)"
      by (simp add: a3_def res2)
    have tr3: "trace a3 = trace a @ BrowserLaunched # (tr2 @ [LoggedError m])"
      by (simp add: a3_def log_event_def tr2)
    have e3: "map_of (results a3) u = Some r3"
      by (simp add: res3 update_conv')
    have "analyze w u a =
            (case close w of
               Rejects m \<Rightarrow> (Rejects m, a3)
             | Resolves _ \<Rightarrow> (Resolves (Some r3), saveResults w (log_event BrowserClosed a3)))"
      using assms tried Rejects c e3
      by (simp add: analyze_def a1_def [symmetric] fresh_def [symmetric] Let_def
            results_saveResults results_log_event split: outcome.split)
    with res3 tr3 k2 Rejects show ?thesis
      by (intro exI [of _ r3] exI [of _ "tr2 @ [LoggedError m]"] exI [of _ a3])
         (simp add: r3_def)
  qed
qed

lemma update_set:
  "(k, v) \<in> set (AList.update u r xs) \<Longrightarrow> (k, v) = (u, r) \<or> (k, v) \<in> set xs"
  by (induction xs) (auto split: if_splits)

lemma analyze_results_cases:
  assumes "analyze w u a = (res, a')"
  shows "results a' = results a
       \<or> (\<exists>r. results a' = AList.update u r (results a) \<and> url r = u \<and> timestamp r = clock w
              \<and> fingerprinting r = no_flags)"
proof (cases "launch w")
  case (Rejects m)
  with assms show ?thesis by (simp add: analyze_rejected_launch)
next
  case (Resolves x)
  from analyze_launched [OF this, of u a] obtain r tr a3 where
    h: "results a3 = AList.update u r (results a)" "url r = u" "timestamp r = clock w"
       "fingerprinting r = no_flags"
       "analyze w u a =
          (case close w of Rejects m \<Rightarrow> (Rejects m, a3)
           | Resolves _ \<Rightarrow> (Resolves (Some r), saveResults w (log_event BrowserClosed a3)))"
    by blast
  from h(5) assms have "results a' = results a3"
    by (cases "close w") (auto simp: results_saveResults results_log_event)
  with h show ?thesis by auto
qed

lemma analyze_resolved_record:
  assumes "analyze w u a = (Resolves ro, a')"
  shows "\<exists>r. ro = Some r \<and> map_of (results a') u = Some r \<and> url r = u
             \<and> timestamp r = clock w \<and> fingerprinting r = no_flags"
proof (cases "launch w")
  case (Rejects m)
  with assms show ?thesis by (simp add: analyze_rejected_launch)
next
  case (Resolves x)
  from analyze_launched [OF this, of u a] obtain r tr a3 where
    h: "results a3 = AList.update u r (results a)" "url r = u" "timestamp r = clock w"
       "fingerprinting r = no_flags"
       "analyze w u a =
          (case close w of Rejects m \<Rightarrow> (Rejects m, a3)
           | Resolves _ \<Rightarrow> (Resolves (Some r), saveResults w (log_event BrowserClosed a3)))"
    by blast
  from h(5) assms have "ro = Some r \<and> results a' = results a3"
    by (cases "close w") (auto simp: results_saveResults results_log_event)
  with h show ?thesis by (simp add: update_conv')
qed

lemma reachable_no_flags:
  "reachable a \<Longrightarrow> (k, r) \<in> set (results a) \<Longrightarrow> fingerprinting r = no_flags"
proof (induction arbitrary: k r rule: reachable.induct)
  case reachable_new
  then show ?case by (simp add: new_analyzer_def)
next
  case (reachable_analyze a w u res a')
  from analyze_results_cases [OF reachable_analyze.hyps(2)]
  show ?case
  proof
    assume "results a' = results a"
    with reachable_analyze.prems reachable_analyze.IH show ?thesis by simp
  next
    assume "\<exists>r'. results a' = AList.update u r' (results a) \<and> url r' = u
                 \<and> timestamp r' = clock w \<and> fingerprinting r' = no_flags"
    then obtain r' where r': "results a' = AList.update u r' (results a)"
      "fingerprinting r' = no_flags" by blast
    from reachable_analyze.prems r'(1) have "(k, r) = (u, r') \<or> (k, r) \<in> set (results a)"
      by (auto dest: update_set)
    with r'(2) reachable_analyze.IH show ?thesis by auto
  qed
qed

lemma reachable_distinct_keys: "reachable a \<Longrightarrow> distinct (map fst (results a))"
proof (induction rule: reachable.induct)
  case reachable_new
  then show ?case by (simp add: new_analyzer_def)
next
  case (reachable_analyze a w u res a')
  from analyze_results_cases [OF reachable_analyze.hyps(2)] reachable_analyze.IH
  show ?case by (auto simp: distinct_update)
qed

lemma tally_fields:
  "analyzedUrls (tally r rep) = analyzedUrls rep"
  "details (tally r rep) = details rep"
  "googleAnalytics (trackingImplementations (tally r rep)) = googleAnalytics (trackingImplementations rep)"
  "customTracking (trackingImplementations (tally r rep)) = customTracking (trackingImplementations rep)"
  "cookie3 (trackingImplementations (tally r rep)) =
     cookie3 (trackingImplementations rep)
       + (if list_ex (\<lambda>s. js_includes (src s) ''cookie3'') (trackingScripts r) then 1 else 0)"
  "fingerprintingDetected (tally r rep) =
     fingerprintingDetected rep
       + (if canvas (fingerprinting r) \<or> webgl (fingerprinting r) \<or> audio (fingerprinting r) then 1 else 0)"
  "walletTrackingDetected (tally r rep) =
     walletTrackingDetected rep + (if detected (walletTracking r) then 1 else 0)"
  by (simp_all add: tally_def Let_def)

lemma report_loop_fingerprinting:
  "fingerprintingDetected (report_loop rs rep) =
     fingerprintingDetected rep
       + length (filter (\<lambda>(k, r). canvas (fingerprinting r) \<or> webgl (fingerprinting r)
                                 \<or> audio (fingerprinting r)) rs)"
  by (induction rs rep rule: report_loop.induct) (simp_all add: tally_fields)

lemma report_loop_cookie3:
  "cookie3 (trackingImplementations (report_loop rs rep)) =
     cookie3 (trackingImplementations rep)
       + length (filter (\<lambda>(k, r). \<exists>s\<in>set (trackingScripts r). occurs_in ''cookie3'' (src s)) rs)"
  by (induction rs rep rule: report_loop.induct)
     (simp_all add: tally_fields list_ex_iff js_includes_iff)

lemma report_loop_wallet:
  "walletTrackingDetected (report_loop rs rep) =
     walletTrackingDetected rep + length (filter (\<lambda>(k, r). detected (walletTracking r)) rs)"
  by (induction rs rep rule: report_loop.induct) (simp_all add: tally_fields)

text \<open>
  C2: whatever the page does, the record returned by analyze has all four fingerprinting
  flags false, and the report of every reachable analyzer counts no fingerprinting.
\<close>

theorem fingerprinting_never_recorded:
  "(analyze w u a = (Resolves ro, a') \<longrightarrow>
      (\<exists>r. ro = Some r \<and> canvas (fingerprinting r) = False \<and> webgl (fingerprinting r) = False
          \<and> fonts (fingerprinting r) = False \<and> audio (fingerprinting r) = False))
   \<and> (reachable a \<longrightarrow> fingerprintingDetected (fst (generateReport a)) = 0)"
proof (intro conjI impI)
  assume "analyze w u a = (Resolves ro, a')"
  from analyze_resolved_record [OF this]
  show "\<exists>r. ro = Some r \<and> canvas (fingerprinting r) = False \<and> webgl (fingerprinting r) = False
          \<and> fonts (fingerprinting r) = False \<and> audio (fingerprinting r) = False"
    by (auto simp: no_flags_def)
next
  assume "reachable a"
  then have "\<forall>(k, r)\<in>set (results a). fingerprinting r = no_flags"
    by (auto dest: reachable_no_flags)
  then have "filter (\<lambda>(k, r). canvas (fingerprinting r) \<or> webgl (fingerprinting r)
                                 \<or> audio (fingerprinting r)) (results a) = []"
    by (auto simp: filter_empty_conv no_flags_def)
  then show "fingerprintingDetected (fst (generateReport a)) = 0"
    by (simp add: generateReport_def report_loop_fingerprinting)
qed

theorem fingerprinting_never_recorded_witness:
  "\<exists>r a'. analyze canvas_world uniswap new_analyzer = (Resolves (Some r), a')
         \<and> canvas (fingerprinting r) = False \<and> webgl (fingerprinting r) = False
         \<and> fonts (fingerprinting r) = False \<and> audio (fingerprinting r) = False
         \<and> reachable a' \<and> fingerprintingDetected (fst (generateReport a')) = 0"
proof -
  have l: "launch canvas_world = Resolves ()" and c: "close canvas_world = Resolves ()"
    by (simp_all add: canvas_world_def quiet_world_def)
  from analyze_launched [OF l, of uniswap new_analyzer] c obtain r a' where
    an: "analyze canvas_world uniswap new_analyzer = (Resolves (Some r), a')"
    by auto
  have re: "reachable a'"
    using reachable_new an by (rule reachable_analyze)
  from fingerprinting_never_recorded [of canvas_world uniswap new_analyzer "Some r" a'] an
  have 1: "canvas (fingerprinting r) = False \<and> webgl (fingerprinting r) = False
         \<and> fonts (fingerprinting r) = False \<and> audio (fingerprinting r) = False"
    by auto
  from fingerprinting_never_recorded [of canvas_world uniswap a' "Some r" a'] re
  have 2: "fingerprintingDetected (fst (generateReport a')) = 0" by blast
  from an 1 2 re show ?thesis by blast
qed

section \<open>Errors inside analyze\<close>

text \<open>
  \<open>try_outcome\<close> read off the world: a rejected navigation is the outcome of the block when
  the two set-up steps resolved, and the block resolves exactly when every awaited call does.
\<close>

lemma try_outcome_navigation:
  "route w = Resolves () \<Longrightarrow> instrument w = Resolves () \<Longrightarrow> navigation w = Rejects m \<Longrightarrow>
   try_outcome w = Rejects m"
  by (simp add: try_outcome_def step_outcomes_def)

lemma try_outcome_resolves_iff:
  "try_outcome w = Resolves () \<longleftrightarrow>
     route w = Resolves () \<and> instrument w = Resolves () \<and> navigation w = Resolves ()
     \<and> (\<exists>els. dom_scripts w = Resolves els) \<and> (\<exists>items. storage_items w = Resolves items)
     \<and> (\<exists>cs. context_cookies w = Resolves cs) \<and> (\<exists>pg. wallet_page w = Resolves pg)"
  unfolding try_outcome_def step_outcomes_def void_def
  by (cases "route w"; cases "instrument w"; cases "navigation w"; cases "dom_scripts w";
      cases "storage_items w"; cases "context_cookies w"; cases "wallet_page w") simp_all

text \<open>
  C4 (as amended): when the browser session opens, an error raised by any awaited call of
  the try block (interception, instrumentation, navigation, the four extraction steps) is
  caught and logged, and the record of the URL gets an \<open>errors\<close> property that is the
  one-element list holding the message of the first rejection (the property is absent when
  nothing rejected). The outcome of analyze is then decided by \<^verbatim>\<open>browser.close\<close> alone:
  when it resolves, analyze resolves with the record, the browser is closed and the
  results mapping is handed to the file system; when it rejects, analyze rejects with that
  message, and the trace ends with the events of the try block and its catch clause.
\<close>

theorem analyze_catches_errors:
  assumes "launch w = Resolves ()"
  shows "\<exists>r a' tr.
           snd (analyze w u a) = a'
         \<and> map_of (results a') u = Some r
         \<and> errors r = (case try_outcome w of Rejects m \<Rightarrow> Some [m] | Resolves _ \<Rightarrow> None)
         \<and> (case try_outcome w of Rejects m \<Rightarrow> LoggedError m \<in> set tr | Resolves _ \<Rightarrow> True)
         \<and> (case close w of
               Rejects m \<Rightarrow>
                 fst (analyze w u a) = Rejects m
                 \<and> trace a' = trace a @ BrowserLaunched # tr
             | Resolves _ \<Rightarrow>
                 fst (analyze w u a) = Resolves (Some r)
                 \<and> trace a' = trace a @ BrowserLaunched # tr @ BrowserClosed
                       # PersistAttempt (results a')
                       # (if write_ok w then [] else [LoggedError ''Error saving results:'']))"
proof -
  from analyze_launched [OF assms, of u a] obtain r tr a3 where
    h: "results a3 = AList.update u r (results a)"
       "trace a3 = trace a @ BrowserLaunched # tr"
       "errors r = (case try_outcome w of Rejects m \<Rightarrow> Some [m] | Resolves _ \<Rightarrow> None)"
       "case try_outcome w of Rejects m \<Rightarrow> LoggedError m \<in> set tr | Resolves _ \<Rightarrow> True"
       "analyze w u a =
          (case close w of Rejects m \<Rightarrow> (Rejects m, a3)
           | Resolves _ \<Rightarrow> (Resolves (Some r), saveResults w (log_event BrowserClosed a3)))"
    by blast
  show ?thesis
  proof (cases "close w")
    case (Rejects m)
    have 1: "analyze w u a = (Rejects m, a3)" using h(5) Rejects by simp
    have 3: "map_of (results a3) u = Some r" by (simp add: h(1) update_conv')
    from 1 3 h(2,3,4) Rejects show ?thesis
      by (intro exI [of _ r] exI [of _ a3] exI [of _ tr]) simp
  next
    case (Resolves x)
    let ?a' = "saveResults w (log_event BrowserClosed a3)"
    have 1: "analyze w u a = (Resolves (Some r), ?a')" using h(5) Resolves by simp
    have 2: "results ?a' = AList.update u r (results a)"
      using h(1) by (simp add: results_saveResults results_log_event)
    have 3: "map_of (results ?a') u = Some r" by (simp add: 2 update_conv')
    have 4: "trace ?a' = trace a @ BrowserLaunched # tr @ BrowserClosed # PersistAttempt (results ?a')
                           # (if write_ok w then [] else [LoggedError ''Error saving results:''])"
      using h(2) by (simp add: trace_saveResults results_saveResults results_log_event trace_log_event)
    from 1 3 4 h(3,4) Resolves show ?thesis
      by (intro exI [of _ r] exI [of _ ?a'] exI [of _ tr]) simp
  qed
qed

theorem analyze_catches_errors_witness:
  "launch timeout_world = Resolves () \<and> close timeout_world = Resolves ()
   \<and> (\<exists>r a'. analyze timeout_world uniswap new_analyzer = (Resolves (Some r), a')
          \<and> map_of (results a') uniswap = Some r
          \<and> errors r = Some [''Timeout 30000ms exceeded'']
          \<and> LoggedError ''Timeout 30000ms exceeded'' \<in> set (trace a')
          \<and> BrowserClosed \<in> set (trace a')
          \<and> PersistAttempt (results a') \<in> set (trace a'))"
proof -
  have l: "launch timeout_world = Resolves ()" and c: "close timeout_world = Resolves ()"
    and wo: "write_ok timeout_world"
    by (simp_all add: timeout_world_def quiet_world_def)
  have t: "try_outcome timeout_world = Rejects ''Timeout 30000ms exceeded''"
    by (simp add: try_outcome_def step_outcomes_def timeout_world_def quiet_world_def)
  from analyze_catches_errors [OF l, of uniswap new_analyzer] obtain r a' tr where
    h: "snd (analyze timeout_world uniswap new_analyzer) = a'"
       "map_of (results a') uniswap = Some r"
       "errors r = (case try_outcome timeout_world of Rejects m \<Rightarrow> Some [m] | Resolves _ \<Rightarrow> None)"
       "case try_outcome timeout_world of Rejects m \<Rightarrow> LoggedError m \<in> set tr | Resolves _ \<Rightarrow> True"
       "case close timeout_world of
               Rejects m \<Rightarrow>
                 fst (analyze timeout_world uniswap new_analyzer) = Rejects m
                 \<and> trace a' = trace new_analyzer @ BrowserLaunched # tr
             | Resolves _ \<Rightarrow>
                 fst (analyze timeout_world uniswap new_analyzer) = Resolves (Some r)
                 \<and> trace a' = trace new_analyzer @ BrowserLaunched # tr @ BrowserClosed
                       # PersistAttempt (results a')
                       # (if write_ok timeout_world then [] else [LoggedError ''Error saving results:''])"
    by blast
  from h(5) c wo have f: "fst (analyze timeout_world uniswap new_analyzer) = Resolves (Some r)"
    and tr: "trace a' = trace new_analyzer @ BrowserLaunched # tr @ [BrowserClosed, PersistAttempt (results a')]"
    by simp_all
  from f h(1) have an: "analyze timeout_world uniswap new_analyzer = (Resolves (Some r), a')"
    by (simp add: prod_eq_iff)
  from h(3) t have e: "errors r = Some [''Timeout 30000ms exceeded'']" by simp
  from h(4) t have lg: "LoggedError ''Timeout 30000ms exceeded'' \<in> set tr" by simp
  from tr lg have
    "LoggedError ''Timeout 30000ms exceeded'' \<in> set (trace a')"
    "BrowserClosed \<in> set (trace a')"
    "PersistAttempt (results a') \<in> set (trace a')"
    by simp_all
  with l c an h(2) e show ?thesis by blast
qed

text \<open>
  C4 as stated fails: when the navigation times out and \<^verbatim>\<open>browser.close\<close> rejects, analyze
  rejects instead of returning the record, and nothing is persisted (no event follows the
  logged navigation error); when the browser cannot be launched, analyze rejects before a
  record exists.
\<close>

theorem rejected_close_escapes:
  "analyze stuck_world uniswap new_analyzer =
     (Rejects ''Target closed'',
      \<lparr>results =
         [(''https://app.uniswap.org'',
           \<lparr>url = ''https://app.uniswap.org'', timestamp = ''2024-01-01T00:00:00.000Z'',
            trackingScripts = [],
            networkRequests =
              [\<lparr>nr_url = ''https://cookie3.co/analytics'', nr_method = ''POST'', nr_headers = [],
                nr_data = None, nr_type = ''cookie3''\<rparr>],
            cookies = [],
            fingerprinting = \<lparr>canvas = False, webgl = False, fonts = False, audio = False\<rparr>,
            walletTracking = \<lparr>detected = False, methods = []\<rparr>,
            localStorage = None,
            errors = Some [''Timeout 30000ms exceeded'']\<rparr>)],
       trace = [BrowserLaunched, LoggedError ''Timeout 30000ms exceeded'']\<rparr>)
   \<and> analyze no_browser_world uniswap new_analyzer =
       (Rejects ''Failed to launch chromium'', \<lparr>results = [], trace = []\<rparr>)"
  by (simp add: analyze_def analyze_try_def stuck_world_def no_browser_world_def
        timeout_world_def quiet_world_def beacon_def uniswap_def
        new_analyzer_def blank_page_def fresh_record_def log_event_def
        setupNetworkMonitoring_def setupFingerprintingDetection_def goto_def
        route_handler_def network_entry_of_def isTrackingRequest_def categorizeRequest_def
        analyze_catch_def modify_record_def Let_def)

section \<open>The record after a failed navigation\<close>

lemma foldl_route_handler_exact:
  "map_of (results a) u = Some r \<Longrightarrow>
   foldl (route_handler u) a rqs =
     a\<lparr>results := AList.update u
         (r\<lparr>networkRequests := networkRequests r @
               map network_entry_of (filter (\<lambda>rq. isTrackingRequest (req_url rq)) rqs)\<rparr>)
         (results a)\<rparr>"
proof (induction rqs arbitrary: a r)
  case Nil
  then show ?case by (simp add: update_triv)
next
  case (Cons rq rqs)
  show ?case
  proof (cases "isTrackingRequest (req_url rq)")
    case True
    let ?r1 = "r\<lparr>networkRequests := networkRequests r @ [network_entry_of rq]\<rparr>"
    let ?a1 = "a\<lparr>results := AList.update u ?r1 (results a)\<rparr>"
    have s: "route_handler u a rq = ?a1"
      using True Cons.prems by (simp add: route_handler_def modify_record_def)
    have "map_of (results ?a1) u = Some ?r1" by (simp add: update_conv')
    from Cons.IH [OF this] s True show ?thesis by simp
  next
    case False
    then have "route_handler u a rq = a" by (simp add: route_handler_def)
    with Cons.IH [OF Cons.prems] False show ?thesis by simp
  qed
qed

lemma analyze_try_navigation_rejected:
  assumes "route w = Resolves ()" and "instrument w = Resolves ()" and "navigation w = Rejects m"
    and "map_of (results a) u = Some r"
  shows "\<exists>p'. analyze_try w u (a, p) =
           (Rejects m,
            (a\<lparr>results := AList.update u
                 (r\<lparr>networkRequests := networkRequests r @
                     map network_entry_of (filter (\<lambda>rq. isTrackingRequest (req_url rq)) (page_requests w))\<rparr>)
                 (results a)\<rparr>, p'))"
  using assms
  by (simp add: analyze_try_def setupNetworkMonitoring_def setupFingerprintingDetection_def
        goto_def Let_def foldl_route_handler_exact)

lemma analyze_navigation_rejected:
  assumes "launch w = Resolves ()" and "close w = Resolves ()"
    and "route w = Resolves ()" and "instrument w = Resolves ()" and "navigation w = Rejects m"
  shows "fst (analyze w u a) =
           Resolves (Some ((fresh_record u (clock w))
             \<lparr>networkRequests :=
                 map network_entry_of (filter (\<lambda>rq. isTrackingRequest (req_url rq)) (page_requests w)),
               errors := Some [m]\<rparr>))"
proof -
  define fresh where "fresh = fresh_record u (clock w)"
  define a1 where "a1 = log_event BrowserLaunched (a\<lparr>results := AList.update u fresh (results a)\<rparr>)"
  have e1: "map_of (results a1) u = Some fresh"
    by (simp add: a1_def results_log_event update_conv')
  define r2 where "r2 = fresh\<lparr>networkRequests := networkRequests fresh @
      map network_entry_of (filter (\<lambda>rq. isTrackingRequest (req_url rq)) (page_requests w))\<rparr>"
  define a2 where "a2 = a1\<lparr>results := AList.update u r2 (results a1)\<rparr>"
  from analyze_try_navigation_rejected [OF assms(3-5) e1, of blank_page] obtain p' where
    tried: "analyze_try w u (a1, blank_page) = (Rejects m, (a2, p'))"
    unfolding a2_def r2_def by blast
  have e2: "map_of (results a2) u = Some r2" by (simp add: a2_def update_conv')
  define a3 where "a3 = (log_event (LoggedError m) a2)\<lparr>results := AList.update u (r2\<lparr>errors := Some [m]\<rparr>) (results a2)\<rparr>"
  have c: "analyze_catch u m a2 = (Resolves (), a3)"
    using e2 by (simp add: analyze_catch_def modify_record_def log_event_def a3_def)
  have e3: "map_of (results a3) u = Some (r2\<lparr>errors := Some [m]\<rparr>)"
    by (simp add: a3_def update_conv')
  have "analyze w u a = (Resolves (Some (r2\<lparr>errors := Some [m]\<rparr>)), saveResults w (log_event BrowserClosed a3))"
    using assms(1,2) tried c e3
    by (simp add: analyze_def a1_def [symmetric] fresh_def [symmetric] Let_def
          results_saveResults results_log_event)
  then show ?thesis by (simp add: r2_def fresh_def fresh_record_def)
qed

text \<open>
  C3 (as amended): when the browser session opens and closes normally, analyze resolves
  with a record that carries the URL and the timestamp of the call; when the navigation
  rejects, its tracking scripts and cookies are empty, its fingerprinting flags are false,
  its wallet tracking is the default, its network requests are the tracking requests
  intercepted before the rejection, and \<open>errors\<close> holds the one message.
\<close>

theorem analyze_returns_record:
  assumes "launch w = Resolves ()" and "close w = Resolves ()"
  shows "\<exists>r a'. analyze w u a = (Resolves (Some r), a') \<and> url r = u \<and> timestamp r = clock w
     \<and> (route w = Resolves () \<and> instrument w = Resolves () \<and> navigation w = Rejects m \<longrightarrow>
          trackingScripts r = [] \<and> cookies r = []
          \<and> fingerprinting r = \<lparr>canvas = False, webgl = False, fonts = False, audio = False\<rparr>
          \<and> walletTracking r = \<lparr>detected = False, methods = []\<rparr>
          \<and> networkRequests r =
                map network_entry_of (filter (\<lambda>rq. isTrackingRequest (req_url rq)) (page_requests w))
          \<and> errors r = Some [m])"
proof -
  from analyze_launched [OF assms(1), of u a] assms(2) obtain r a' where
    h: "analyze w u a = (Resolves (Some r), a')" "url r = u" "timestamp r = clock w"
    by auto
  have "trackingScripts r = [] \<and> cookies r = []
          \<and> fingerprinting r = \<lparr>canvas = False, webgl = False, fonts = False, audio = False\<rparr>
          \<and> walletTracking r = \<lparr>detected = False, methods = []\<rparr>
          \<and> networkRequests r =
                map network_entry_of (filter (\<lambda>rq. isTrackingRequest (req_url rq)) (page_requests w))
          \<and> errors r = Some [m]"
    if n: "route w = Resolves ()" "instrument w = Resolves ()" "navigation w = Rejects m"
  proof -
    from analyze_navigation_rejected [OF assms n, of u a] h(1)
    have "r = (fresh_record u (clock w))
             \<lparr>networkRequests :=
                 map network_entry_of (filter (\<lambda>rq. isTrackingRequest (req_url rq)) (page_requests w)),
               errors := Some [m]\<rparr>"
      by simp
    then show ?thesis by (simp add: fresh_record_def)
  qed
  with h show ?thesis by blast
qed

theorem analyze_returns_record_witness:
  "launch timeout_world = Resolves () \<and> close timeout_world = Resolves ()
   \<and> route timeout_world = Resolves () \<and> instrument timeout_world = Resolves ()
   \<and> navigation timeout_world = Rejects ''Timeout 30000ms exceeded''
   \<and> (\<exists>r a'. analyze timeout_world uniswap new_analyzer = (Resolves (Some r), a')
          \<and> url r = uniswap \<and> timestamp r = ''2024-01-01T00:00:00.000Z''
          \<and> trackingScripts r = [] \<and> cookies r = []
          \<and> walletTracking r = \<lparr>detected = False, methods = []\<rparr>
          \<and> networkRequests r = [network_entry_of beacon]
          \<and> errors r = Some [''Timeout 30000ms exceeded''])"
proof -
  have w: "launch timeout_world = Resolves ()" "close timeout_world = Resolves ()"
    "route timeout_world = Resolves ()" "instrument timeout_world = Resolves ()"
    "navigation timeout_world = Rejects ''Timeout 30000ms exceeded''"
    "clock timeout_world = ''2024-01-01T00:00:00.000Z''"
    "page_requests timeout_world = [beacon]"
    by (simp_all add: timeout_world_def quiet_world_def)
  have b: "isTrackingRequest (req_url beacon)"
    by (simp add: beacon_def isTrackingRequest_def)
  from analyze_returns_record [OF w(1,2), of uniswap new_analyzer "''Timeout 30000ms exceeded''"]
    w b show ?thesis
    by auto
qed

text \<open>
  C3 as stated fails: after a navigation that timed out the record has no \<open>localStorage\<close>
  property, and its network requests are not empty.
\<close>

theorem navigation_failure_record:
  "fst (analyze timeout_world uniswap new_analyzer) =
     Resolves (Some
       \<lparr>url = ''https://app.uniswap.org'', timestamp = ''2024-01-01T00:00:00.000Z'',
        trackingScripts = [],
        networkRequests =
          [\<lparr>nr_url = ''https://cookie3.co/analytics'', nr_method = ''POST'', nr_headers = [],
            nr_data = None, nr_type = ''cookie3''\<rparr>],
        cookies = [],
        fingerprinting = \<lparr>canvas = False, webgl = False, fonts = False, audio = False\<rparr>,
        walletTracking = \<lparr>detected = False, methods = []\<rparr>,
        localStorage = None,
        errors = Some [''Timeout 30000ms exceeded'']\<rparr>)"
proof -
  have w: "launch timeout_world = Resolves ()" "close timeout_world = Resolves ()"
    "route timeout_world = Resolves ()" "instrument timeout_world = Resolves ()"
    "navigation timeout_world = Rejects ''Timeout 30000ms exceeded''"
    "clock timeout_world = ''2024-01-01T00:00:00.000Z''"
    "page_requests timeout_world = [beacon]"
    by (simp_all add: timeout_world_def quiet_world_def)
  have b: "isTrackingRequest (req_url beacon)"
    by (simp add: beacon_def isTrackingRequest_def)
  have e: "network_entry_of beacon =
     \<lparr>nr_url = ''https://cookie3.co/analytics'', nr_method = ''POST'', nr_headers = [],
            nr_data = None, nr_type = ''cookie3''\<rparr>"
    by (simp add: network_entry_of_def beacon_def categorizeRequest_def)
  show ?thesis
    by (simp add: analyze_navigation_rejected [OF w(1-5)] w b e fresh_record_def uniswap_def)
qed

section \<open>Analyzing a URL again; the fingerprinting flags\<close>





text \<open>
  C1: on a page that calls the patched canvas export while it loads, the flag
  \<open>window._fingerprinting.canvas\<close> is set at the end of the try block, and the record
  returned by analyze has \<open>canvas = False\<close>: the flags are never read back.
\<close>

theorem canvas_call_not_recorded:
  "snd (snd (analyze_try canvas_world uniswap
        (\<lparr>results = [(uniswap, fresh_record uniswap (clock canvas_world))], trace = [BrowserLaunched]\<rparr>,
         blank_page))) =
     \<lparr>routed = True, patched = True, win_canvas = True, win_webgl = False, win_audio = False\<rparr>
   \<and> fst (analyze canvas_world uniswap new_analyzer) =
       Resolves (Some
         \<lparr>url = ''https://app.uniswap.org'', timestamp = ''2024-01-01T00:00:00.000Z'',
          trackingScripts = [], networkRequests = [], cookies = [],
          fingerprinting = \<lparr>canvas = False, webgl = False, fonts = False, audio = False\<rparr>,
          walletTracking = \<lparr>detected = False, methods = []\<rparr>,
          localStorage = Some [], errors = None\<rparr>)"
  by (simp add: analyze_def analyze_try_def canvas_world_def quiet_world_def uniswap_def
        new_analyzer_def blank_page_def fresh_record_def log_event_def
        setupNetworkMonitoring_def setupFingerprintingDetection_def goto_def
        analyzeTrackingScripts_def analyzeLocalStorage_def analyzeCookies_def
        analyzeWalletTracking_def saveScreenshot_def saveResults_def modify_record_def
        wallet_eval_def wallet_patterns_def Let_def)

section \<open>Script filter, wallet detection and the report\<close>

text \<open>
  C6: the tracking scripts stored by \<open>analyzeTrackingScripts\<close> are the script elements of
  the page, in order, whose source URL or inline content contains one of the five keywords
  as a case-sensitive substring.
\<close>

theorem analyzeTrackingScripts_retains:
  assumes "dom_scripts w = Resolves els" and "map_of (results a) u = Some r"
  shows "\<exists>a' r'. analyzeTrackingScripts w u (a, p) = (Resolves (), (a', p))
          \<and> map_of (results a') u = Some r'
          \<and> trackingScripts r' =
               filter (\<lambda>s. \<exists>t \<in> {''cookie3'', ''analytics'', ''tracking'', ''wallet'', ''web3''}.
                              occurs_in t (src s) \<or> occurs_in t (content s)) els
          \<and> (\<forall>s. s \<in> set (trackingScripts r') \<longleftrightarrow>
                 s \<in> set els \<and>
                 (\<exists>t \<in> {''cookie3'', ''analytics'', ''tracking'', ''wallet'', ''web3''}.
                    occurs_in t (src s) \<or> occurs_in t (content s)))"
proof -
  let ?keep = "\<lambda>s. \<exists>t \<in> {''cookie3'', ''analytics'', ''tracking'', ''wallet'', ''web3''}.
                              occurs_in t (src s) \<or> occurs_in t (content s)"
  let ?r' = "r\<lparr>trackingScripts := filter is_tracking_script els\<rparr>"
  let ?a' = "a\<lparr>results := AList.update u ?r' (results a)\<rparr>"
  have f: "filter is_tracking_script els = filter ?keep els"
    by (rule filter_cong) (simp_all add: is_tracking_script_iff)
  have 1: "analyzeTrackingScripts w u (a, p) = (Resolves (), (?a', p))"
    using assms by (simp add: analyzeTrackingScripts_def modify_record_def)
  have 2: "map_of (results ?a') u = Some ?r'" by (simp add: update_conv')
  have 3: "trackingScripts ?r' = filter ?keep els" using f by simp
  have 4: "\<forall>s. s \<in> set (trackingScripts ?r') \<longleftrightarrow> s \<in> set els \<and> ?keep s"
    unfolding 3 by simp
  from 1 2 3 4 show ?thesis by blast
qed

lemma capital_script_dropped: "\<not> is_tracking_script capital_script"
  by (simp add: is_tracking_script_def tracking_terms_def capital_script_def)

lemma lower_script_kept: "is_tracking_script lower_script"
  by (simp add: is_tracking_script_def tracking_terms_def lower_script_def)

lemma inline_script_kept: "is_tracking_script inline_script"
  by (simp add: is_tracking_script_def tracking_terms_def inline_script_def)

theorem analyzeTrackingScripts_retains_witness:
  "dom_scripts scripts_world = Resolves [capital_script, lower_script, inline_script]
   \<and> map_of (results revisited) uniswap = Some (fresh_record uniswap ''2023-12-31T00:00:00.000Z'')
   \<and> src capital_script = ''https://x.com/Analytics.js''
   \<and> src lower_script = ''https://x.com/analytics.js''
   \<and> (\<exists>a' r'. analyzeTrackingScripts scripts_world uniswap (revisited, blank_page)
                   = (Resolves (), (a', blank_page))
          \<and> map_of (results a') uniswap = Some r'
          \<and> trackingScripts r' = [lower_script, inline_script]
          \<and> capital_script \<notin> set (trackingScripts r')
          \<and> lower_script \<in> set (trackingScripts r'))"
proof -
  have d: "dom_scripts scripts_world = Resolves [capital_script, lower_script, inline_script]"
    by (simp add: scripts_world_def quiet_world_def)
  have e: "map_of (results revisited) uniswap = Some (fresh_record uniswap ''2023-12-31T00:00:00.000Z'')"
    by (simp add: revisited_def)
  have n: "src capital_script = ''https://x.com/Analytics.js''"
    "src lower_script = ''https://x.com/analytics.js''"
    by (simp_all add: capital_script_def lower_script_def)
  have k: "\<not> (\<exists>t \<in> {''cookie3'', ''analytics'', ''tracking'', ''wallet'', ''web3''}.
               occurs_in t (src capital_script) \<or> occurs_in t (content capital_script))"
    "\<exists>t \<in> {''cookie3'', ''analytics'', ''tracking'', ''wallet'', ''web3''}.
               occurs_in t (src lower_script) \<or> occurs_in t (content lower_script)"
    "\<exists>t \<in> {''cookie3'', ''analytics'', ''tracking'', ''wallet'', ''web3''}.
               occurs_in t (src inline_script) \<or> occurs_in t (content inline_script)"
    using capital_script_dropped lower_script_kept inline_script_kept
    unfolding is_tracking_script_iff by blast+
  have c: "capital_script \<noteq> lower_script" "capital_script \<noteq> inline_script"
    by (simp_all add: capital_script_def lower_script_def inline_script_def)
  from analyzeTrackingScripts_retains [OF d e, of blank_page] obtain a' r' where
    h: "analyzeTrackingScripts scripts_world uniswap (revisited, blank_page) = (Resolves (), (a', blank_page))"
       "map_of (results a') uniswap = Some r'"
       "trackingScripts r' =
               filter (\<lambda>s. \<exists>t \<in> {''cookie3'', ''analytics'', ''tracking'', ''wallet'', ''web3''}.
                              occurs_in t (src s) \<or> occurs_in t (content s))
                 [capital_script, lower_script, inline_script]"
    by blast
  from h(3) k have t: "trackingScripts r' = [lower_script, inline_script]" by simp
  with c have "capital_script \<notin> set (trackingScripts r')" "lower_script \<in> set (trackingScripts r')"
    by simp_all
  with d e n h(1,2) t show ?thesis by blast
qed

text \<open>
  C7: \<open>generateReport\<close> leaves the analyzer as it was, a second call gives the same
  report, and the report's details are the results mapping itself.
\<close>

theorem generateReport_idempotent:
  "snd (generateReport a) = a
   \<and> generateReport (snd (generateReport a)) = generateReport a
   \<and> details (fst (generateReport a)) = results a
   \<and> analyzedUrls (fst (generateReport a)) = length (results a)"
proof -
  have d: "details (report_loop rs rep) = details rep" for rs rep
    by (induction rs rep rule: report_loop.induct) (simp_all add: tally_fields)
  have n: "analyzedUrls (report_loop rs rep) = analyzedUrls rep" for rs rep
    by (induction rs rep rule: report_loop.induct) (simp_all add: tally_fields)
  show ?thesis by (simp add: generateReport_def d n)
qed

text \<open>
  C9 as stated fails: on a page with the provider object whose markup matches every
  pattern twice, each identifier is listed once, and no page at all yields a methods list
  with a repeated entry.
\<close>

theorem wallet_methods_never_repeat:
  "methods (wallet_eval True wallet_markup) =
     [''ethereum'', ''accountsChanged'', ''ethereum.on('', ''wallet.on('', ''web3'']
   \<and> \<not> (\<exists>eth source. \<not> distinct (methods (wallet_eval eth source)))"
proof -
  have "methods (wallet_eval True wallet_markup) =
     [''ethereum'', ''accountsChanged'', ''ethereum.on('', ''wallet.on('', ''web3'']"
    by (simp add: wallet_eval_def wallet_patterns_def wallet_markup_def)
  then show ?thesis by (simp add: wallet_eval_distinct)
qed

text \<open>
  C9 (as amended): the provider object or any matched pattern sets \<open>detected\<close>; the methods
  list is \<open>ethereum\<close> (if the provider object is present) followed by the matched patterns
  in their fixed order, and it never contains a repeated entry.
\<close>

theorem wallet_eval_spec:
  "detected (wallet_eval eth source) =
     (eth \<or> (\<exists>p \<in> {''accountsChanged'', ''ethereum.on('', ''wallet.on('', ''web3''}. occurs_in p source))
   \<and> methods (wallet_eval eth source) =
       (if eth then [''ethereum''] else []) @
       filter (\<lambda>p. occurs_in p source) [''accountsChanged'', ''ethereum.on('', ''wallet.on('', ''web3'']
   \<and> distinct (methods (wallet_eval eth source))"
  using wallet_eval_detected [of eth source] wallet_eval_methods [of eth source]
    wallet_eval_distinct [of eth source]
  by blast

text \<open>
  C10: the \<open>cookie3\<close> counter of the report is the number of records with a tracking
  script whose \<open>src\<close> contains \<open>cookie3\<close>; a record none of whose scripts has such a
  \<open>src\<close> adds nothing to it, whatever the inline content of its scripts.
\<close>

theorem generateReport_cookie3_count:
  "cookie3 (trackingImplementations (fst (generateReport a))) =
     length (filter (\<lambda>(k, r). \<exists>s\<in>set (trackingScripts r). occurs_in ''cookie3'' (src s)) (results a))
   \<and> ((\<forall>s\<in>set (trackingScripts r). \<not> occurs_in ''cookie3'' (src s)) \<longrightarrow>
        cookie3 (trackingImplementations (fst (generateReport (a\<lparr>results := results a @ [(k, r)]\<rparr>))))
          = cookie3 (trackingImplementations (fst (generateReport a))))"
  by (simp add: generateReport_def report_loop_cookie3)

theorem generateReport_cookie3_count_witness:
  "is_tracking_script inline_script
   \<and> occurs_in ''cookie3'' (content inline_script)
   \<and> trackingScripts inline_only = [inline_script]
   \<and> cookie3 (trackingImplementations
        (fst (generateReport \<lparr>results = [(uniswap, inline_only)], trace = []\<rparr>))) = 0"
proof -
  have o: "occurs_in ''cookie3'' (content inline_script)"
    unfolding js_includes_iff [symmetric] by (simp add: inline_script_def)
  have n: "\<not> occurs_in ''cookie3'' (src inline_script)"
    unfolding js_includes_iff [symmetric] by (simp add: inline_script_def)
  have t: "trackingScripts inline_only = [inline_script]"
    by (simp add: inline_only_def)
  have e: "new_analyzer\<lparr>results := results new_analyzer @ [(uniswap, inline_only)]\<rparr>
             = \<lparr>results = [(uniswap, inline_only)], trace = []\<rparr>"
    by (simp add: new_analyzer_def)
  have z: "cookie3 (trackingImplementations (fst (generateReport new_analyzer))) = 0"
    by (simp add: generateReport_def new_analyzer_def)
  from generateReport_cookie3_count [of new_analyzer inline_only uniswap] n t e z
  have "cookie3 (trackingImplementations
        (fst (generateReport \<lparr>results = [(uniswap, inline_only)], trace = []\<rparr>))) = 0"
    by simp
  with inline_script_kept o t show ?thesis by blast
qed

end
